theory Spec2Isabelle
  imports Main "HOL-Library.AList"
begin

section \<open>The class-based store: \<open>lab_ontology.py\<close>\<close>

text \<open>
  Identifiers are Python strings. A Python \<open>set\<close> is modelled by the list of its
  elements in iteration order (no element twice), a \<open>dict\<close> by an association list in
  insertion order, read with \<open>map_of\<close> and written with \<open>AList.update\<close> (an existing
  key keeps its place, a new key goes to the end). No theorem below depends on the order
  chosen for a set.
\<close>

type_synonym ident = string

text \<open>
  The exceptions the two modules raise. A \<open>KeyError\<close> carries its message, an
  \<open>AssertionError\<close> of the validator the invariant it names and the offending value:
  \<open>Need_classes n\<close> is the message "Need >=20 classes, have n", \<open>Need_depth\<close> is
  "Need an is_a chain of depth >=4", and \<open>Leaf_instances c n\<close> is
  "Leaf "c" must have >=2 instances (has n)".
\<close>

datatype assertion = Need_classes nat | Need_depth | Leaf_instances ident nat

datatype error = KeyError string | AttributeError string | AssertionError assertion

datatype relname = R_is_a | R_part_of | R_depends_on

type_synonym graph = "(ident \<times> ident list) list"

record ontology =
  classes :: "ident list"
  instances :: "ident list"
  instance_of :: "(ident \<times> ident) list"
  rels :: "relname \<Rightarrow> graph"

text \<open>\<open>Ontology.__init__\<close>.\<close>

definition Ontology_init :: ontology where
  "Ontology_init = \<lparr>classes = [], instances = [], instance_of = [], rels = (\<lambda>r. [])\<rparr>"

text \<open>\<open>s.add(x)\<close> on a set.\<close>

definition set_add :: "'a \<Rightarrow> 'a list \<Rightarrow> 'a list" where
  "set_add x xs = (if x \<in> set xs then xs else xs @ [x])"

lemma set_set_add: "set (set_add x xs) = insert x (set xs)"
  by (auto simp: set_add_def)

text \<open>\<open>graph.get(x, ())\<close>: the targets stored for \<open>x\<close>, none when \<open>x\<close> is no key.\<close>

definition succs :: "graph \<Rightarrow> ident \<Rightarrow> ident list" where
  "succs g x = (case map_of g x of None \<Rightarrow> [] | Some ys \<Rightarrow> ys)"

text \<open>\<open>graph[a].add(b)\<close> on a \<open>defaultdict(set)\<close>: a missing key is created.\<close>

definition graph_add :: "ident \<Rightarrow> ident \<Rightarrow> graph \<Rightarrow> graph" where
  "graph_add a b g = AList.update a (set_add b (succs g a)) g"

definition add_class :: "ident \<Rightarrow> ontology \<Rightarrow> ontology" where
  "add_class c S = S\<lparr>classes := set_add c (classes S)\<rparr>"

definition add_edge :: "relname \<Rightarrow> ident \<Rightarrow> ident \<Rightarrow> ontology \<Rightarrow> ontology" where
  "add_edge r a b S =
     (let S1 = add_class a S; S2 = add_class b S1
      in S2\<lparr>rels := (rels S2)(r := graph_add a b (rels S2 r))\<rparr>)"

definition add_is_a :: "ident \<Rightarrow> ident \<Rightarrow> ontology \<Rightarrow> ontology" where
  "add_is_a child parent S = add_edge R_is_a child parent S"

definition add_part_of :: "ident \<Rightarrow> ident \<Rightarrow> ontology \<Rightarrow> ontology" where
  "add_part_of part whole S = add_edge R_part_of part whole S"

definition add_depends_on :: "ident \<Rightarrow> ident \<Rightarrow> ontology \<Rightarrow> ontology" where
  "add_depends_on a b S = add_edge R_depends_on a b S"

definition add_instance :: "ident \<Rightarrow> ident \<Rightarrow> ontology \<Rightarrow> ontology" where
  "add_instance inst clazz S =
     (let S1 = add_class clazz S
      in S1\<lparr>instances := set_add inst (instances S1),
            instance_of := AList.update inst clazz (instance_of S1)\<rparr>)"


definition is_class :: "ontology \<Rightarrow> ident \<Rightarrow> bool" where
  "is_class S x = (x \<in> set (classes S))"

definition is_instance :: "ontology \<Rightarrow> ident \<Rightarrow> bool" where
  "is_instance S x = (x \<in> set (instances S))"

text \<open>A sequence of construction calls.\<close>

datatype construction =
    Add_class ident
  | Add_is_a ident ident
  | Add_part_of ident ident
  | Add_depends_on ident ident
  | Add_instance ident ident

fun construct :: "construction \<Rightarrow> ontology \<Rightarrow> ontology" where
  "construct (Add_class c) S = add_class c S"
| "construct (Add_is_a a b) S = add_is_a a b S"
| "construct (Add_part_of a b) S = add_part_of a b S"
| "construct (Add_depends_on a b) S = add_depends_on a b S"
| "construct (Add_instance i c) S = add_instance i c S"

definition build :: "construction list \<Rightarrow> ontology" where
  "build ops = fold construct ops Ontology_init"

text \<open>The identifiers a call passes in class position, and in instance position.\<close>

fun class_args :: "construction \<Rightarrow> ident set" where
  "class_args (Add_class c) = {c}"
| "class_args (Add_is_a a b) = {a, b}"
| "class_args (Add_part_of a b) = {a, b}"
| "class_args (Add_depends_on a b) = {a, b}"
| "class_args (Add_instance i c) = {c}"

fun instance_args :: "construction \<Rightarrow> ident set" where
  "instance_args (Add_instance i c) = {i}"
| "instance_args _ = {}"

subsection \<open>\<open>_reachable\<close>\<close>

text \<open>
  The \<open>while stack\<close> loop of \<open>_reachable\<close>. The Python list used as a stack is a list
  whose head is the top: \<open>stack.pop()\<close> takes the head, \<open>stack.append(y)\<close> conses.
\<close>

function reachable_loop :: "graph \<Rightarrow> ident \<Rightarrow> ident set \<Rightarrow> ident list \<Rightarrow> bool" where
  "reachable_loop g target seen [] = False"
| "reachable_loop g target seen (x # stack) =
     (if x = target then True
      else if x \<in> seen then reachable_loop g target seen stack
      else reachable_loop g target (insert x seen) (fold (\<lambda>y st. y # st) (succs g x) stack))"
  by pat_completeness auto

definition targets :: "graph \<Rightarrow> ident set" where
  "targets g = (\<Union>(x, ys) \<in> set g. set ys)"

lemma succs_targets: "set (succs g x) \<subseteq> targets g"
proof (cases "map_of g x")
  case None
  then show ?thesis by (simp add: succs_def)
next
  case (Some ys)
  then have "(x, ys) \<in> set g" by (rule map_of_SomeD)
  then show ?thesis using Some by (force simp: succs_def targets_def)
qed

lemma fold_push: "fold (\<lambda>y st. y # st) ys st = rev ys @ st"
  by (induction ys arbitrary: st) auto

lemma finite_targets: "finite (targets g)"
  by (auto simp: targets_def)

termination reachable_loop
proof (relation "measures [\<lambda>(g, t, seen, stack). card ((set stack \<union> targets g) - seen),
                            \<lambda>(g, t, seen, stack). length stack]", goal_cases)
  case 1
  show ?case by simp
next
  case (2 g target seen x stack)
  have "(set stack \<union> targets g) - seen \<subseteq> (set (x # stack) \<union> targets g) - seen"
    by auto
  moreover have "finite ((set (x # stack) \<union> targets g) - seen)"
    using finite_targets by simp
  ultimately have "card ((set stack \<union> targets g) - seen)
      \<le> card ((set (x # stack) \<union> targets g) - seen)"
    by (rule card_mono[rotated])
  then show ?case by auto
next
  case (3 g target seen x stack)
  let ?new = "fold (\<lambda>y st. y # st) (succs g x) stack"
  have sub: "(set ?new \<union> targets g) - insert x seen \<subseteq> (set (x # stack) \<union> targets g) - seen"
    using succs_targets[of g x] by (auto simp: fold_push)
  have "x \<in> (set (x # stack) \<union> targets g) - seen" using 3 by simp
  moreover have "x \<notin> (set ?new \<union> targets g) - insert x seen" by simp
  ultimately have "(set ?new \<union> targets g) - insert x seen \<subset> (set (x # stack) \<union> targets g) - seen"
    using sub by blast
  moreover have "finite ((set (x # stack) \<union> targets g) - seen)"
    using finite_targets by simp
  ultimately have "card ((set ?new \<union> targets g) - insert x seen)
      < card ((set (x # stack) \<union> targets g) - seen)"
    by (rule psubset_card_mono[rotated])
  then show ?case by simp
qed

definition reachable :: "ontology \<Rightarrow> ident \<Rightarrow> ident \<Rightarrow> relname \<Rightarrow> bool" where
  "reachable S start target r = reachable_loop (rels S r) target {} [start]"

definition is_a :: "ontology \<Rightarrow> ident \<Rightarrow> ident \<Rightarrow> bool" where
  "is_a S child parent = reachable S child parent R_is_a"

text \<open>
  \<open>part_of\<close>: the direct check, then both operands lifted to their classes.
  \<open>self.instance_of.get(x, x) if x in self.instances else x\<close> is \<open>lift\<close>.
\<close>

definition lift :: "ontology \<Rightarrow> ident \<Rightarrow> ident" where
  "lift S x =
     (if x \<in> set (instances S)
      then (case map_of (instance_of S) x of None \<Rightarrow> x | Some c \<Rightarrow> c)
      else x)"

definition part_of :: "ontology \<Rightarrow> ident \<Rightarrow> ident \<Rightarrow> bool" where
  "part_of S part whole =
     (if reachable S part whole R_part_of then True
      else reachable S (lift S part) (lift S whole) R_part_of)"

definition depends_on :: "ontology \<Rightarrow> ident \<Rightarrow> ident \<Rightarrow> bool" where
  "depends_on S a b = reachable S a b R_depends_on"




subsection \<open>The stored edges and the invariant of the store\<close>

text \<open>The edges a relation stores: \<open>y\<close> is in \<open>graph[x]\<close>.\<close>

definition edges :: "graph \<Rightarrow> (ident \<times> ident) set" where
  "edges g = {(x, y). y \<in> set (succs g x)}"

text \<open>
  What the construction calls maintain: every end of an edge and every class an
  instance is assigned to is a registered class, and every assigned instance is a
  registered instance.
\<close>

definition store_inv :: "ontology \<Rightarrow> bool" where
  "store_inv S =
     ((\<forall>r\<in>{R_is_a, R_part_of, R_depends_on}. \<forall>(x, ys)\<in>set (rels S r).
         x \<in> set (classes S) \<and> set ys \<subseteq> set (classes S))
      \<and> (\<forall>(i, c)\<in>set (instance_of S). i \<in> set (instances S) \<and> c \<in> set (classes S)))"

subsection \<open>\<open>any_path\<close>\<close>

text \<open>
  A path is a list of \<open>(source, relation, target)\<close> triples. The dictionary \<open>prev\<close> maps
  a discovered node to the edge that reached it; the start node is mapped to
  \<open>(None, None)\<close>, modelled by \<open>None\<close>. The queue holds pairs of a node and the relation
  that reached it.
\<close>

type_synonym edge = "ident \<times> relname \<times> ident"

type_synonym prev_map = "(ident \<times> (ident \<times> relname) option) list"

type_synonym bfs_queue = "(ident \<times> relname option) list"

text \<open>\<open>self.rels.items()\<close>: the three relations in the order \<open>__init__\<close> inserted them.\<close>

definition rel_items :: "ontology \<Rightarrow> (relname \<times> graph) list" where
  "rel_items S = map (\<lambda>r. (r, rels S r)) [R_is_a, R_part_of, R_depends_on]"

text \<open>\<open>if y not in prev: prev[y] = (x, relname); q.append((y, relname))\<close>.\<close>

definition visit :: "ident \<Rightarrow> relname \<Rightarrow> ident \<Rightarrow> prev_map \<times> bfs_queue \<Rightarrow> prev_map \<times> bfs_queue" where
  "visit x r y st =
     (case st of (prev, q) \<Rightarrow>
        if map_of prev y = None
        then (AList.update y (Some (x, r)) prev, q @ [(y, Some r)])
        else (prev, q))"

text \<open>The two nested \<open>for\<close> loops over the relations and over the targets of \<open>x\<close>.\<close>

definition expand :: "ontology \<Rightarrow> ident \<Rightarrow> prev_map \<times> bfs_queue \<Rightarrow> prev_map \<times> bfs_queue" where
  "expand S x st = fold (\<lambda>(r, g) st. fold (visit x r) (succs g x) st) (rel_items S) st"

text \<open>
  The inner \<open>while prev[cur][0] is not None\<close> loop, which collects the path backwards.
  Nothing in the loop itself bounds it, so it is a partial function: \<open>None\<close> is a walk
  that never ends. \<open>prev[cur]\<close> raises \<open>KeyError\<close> when \<open>cur\<close> is no key.
\<close>

partial_function (option) walk_back :: "prev_map \<Rightarrow> ident \<Rightarrow> edge list \<Rightarrow> (error + edge list) option" where
  "walk_back prev cur path =
     (case map_of prev cur of
        None \<Rightarrow> Some (Inl (KeyError cur))
      | Some None \<Rightarrow> Some (Inr path)
      | Some (Some (pnode, prel)) \<Rightarrow> walk_back prev pnode (path @ [(pnode, prel, cur)]))"

text \<open>
  The outer \<open>while q\<close> loop. The result \<open>Some (Inr None)\<close> is Python's \<open>None\<close>,
  \<open>Some (Inr (Some p))\<close> the returned list \<open>p\<close>.
\<close>

definition all_targets :: "ontology \<Rightarrow> ident set" where
  "all_targets S = targets (rels S R_is_a) \<union> targets (rels S R_part_of) \<union> targets (rels S R_depends_on)"

function any_path_loop :: "ontology \<Rightarrow> ident \<Rightarrow> prev_map \<Rightarrow> bfs_queue \<Rightarrow> (error + edge list option) option" where
  "any_path_loop S b prev [] = Some (Inr None)"
| "any_path_loop S b prev ((x, via) # q) =
     (if x = b
      then (case walk_back prev b [] of
              None \<Rightarrow> None
            | Some (Inl e) \<Rightarrow> Some (Inl e)
            | Some (Inr path) \<Rightarrow> Some (Inr (Some (rev path))))
      else (case expand S x (prev, q) of (prev', q') \<Rightarrow> any_path_loop S b prev' q'))"
  by pat_completeness auto

lemma update_new_key: "map_of al k = None \<Longrightarrow> AList.update k v al = al @ [(k, v)]"
  by (induction al) (auto split: if_splits)

definition bfs_measure :: "ontology \<Rightarrow> prev_map \<times> bfs_queue \<Rightarrow> nat" where
  "bfs_measure S st = card (all_targets S - fst ` set (fst st)) + length (snd st)"

lemma finite_all_targets: "finite (all_targets S)"
  by (simp add: all_targets_def finite_targets)

lemma visit_measure:
  assumes "y \<in> all_targets S"
  shows "bfs_measure S (visit x r y st) = bfs_measure S st"
proof (cases st)
  case (Pair prev q)
  show ?thesis
  proof (cases "map_of prev y")
    case (Some v)
    then show ?thesis by (simp add: visit_def Pair)
  next
    case None
    then have ny: "y \<notin> fst ` set prev" by (simp add: map_of_eq_None_iff)
    let ?A = "all_targets S - fst ` set prev"
    have yA: "y \<in> ?A" using assms ny by simp
    have fin: "finite ?A" using finite_all_targets by simp
    have "card (?A - {y}) = card ?A - 1" using yA by (simp add: card_Diff_singleton)
    moreover have "0 < card ?A" using yA fin by (auto simp: card_gt_0_iff)
    ultimately have "Suc (card (?A - {y})) = card ?A" by simp
    moreover have "all_targets S - fst ` set (prev @ [(y, Some (x, r))]) = ?A - {y}"
      by auto
    ultimately have "Suc (card (all_targets S - fst ` set (prev @ [(y, Some (x, r))]))) = card ?A"
      by simp
    then show ?thesis
      unfolding visit_def Pair bfs_measure_def using None
      by (simp add: update_new_key del: set_append)
  qed
qed

lemma fold_visit_measure:
  "set ys \<subseteq> all_targets S \<Longrightarrow> bfs_measure S (fold (visit x r) ys st) = bfs_measure S st"
  by (induction ys arbitrary: st) (simp_all add: visit_measure)

lemma succs_all_targets: "set (succs (rels S r) x) \<subseteq> all_targets S"
  using succs_targets[of "rels S r" x] by (cases r) (auto simp: all_targets_def)

lemma expand_measure: "bfs_measure S (expand S x st) = bfs_measure S st"
  by (simp add: expand_def rel_items_def fold_visit_measure succs_all_targets)

termination any_path_loop
proof (relation "measure (\<lambda>(S, b, prev, q). bfs_measure S (prev, q))", goal_cases)
  case 1
  show ?case by simp
next
  case (2 S b prev x via q prev' q')
  then have "expand S x (prev, q) = (prev', q')" by simp
  then have "bfs_measure S (prev', q') = bfs_measure S (prev, q)"
    using expand_measure[of S x "(prev, q)"] by simp
  then show ?case by (simp add: bfs_measure_def)
qed

definition any_path :: "ontology \<Rightarrow> ident \<Rightarrow> ident \<Rightarrow> (error + edge list option) option" where
  "any_path S a b = any_path_loop S b [(a, None)] [(a, None)]"

subsection \<open>The structural checks\<close>

text \<open>\<open>{x for x, parents in self.rels["is_a"].items() if c in parents}\<close>.\<close>

definition subclasses :: "ontology \<Rightarrow> ident \<Rightarrow> ident list" where
  "subclasses S c = map fst (filter (\<lambda>(x, parents). c \<in> set parents) (rels S R_is_a))"

definition is_leaf_class :: "ontology \<Rightarrow> ident \<Rightarrow> bool" where
  "is_leaf_class S c = (length (subclasses S c) = 0)"

definition instances_of :: "ontology \<Rightarrow> ident \<Rightarrow> ident list" where
  "instances_of S c = map fst (filter (\<lambda>(i, cls). cls = c) (instance_of S))"

text \<open>The dictionary \<open>down\<close> of \<open>max_depth_from\<close>: every \<open>is_a\<close> edge reversed.\<close>

definition down_index :: "graph \<Rightarrow> graph" where
  "down_index g =
     fold (\<lambda>(child, parents) down. fold (\<lambda>p down. graph_add p child down) parents down) g []"

text \<open>
  The \<open>while stack\<close> loop of \<open>max_depth_from\<close>. It keeps no visited set, so on a
  cyclic \<open>is_a\<close> relation it never ends: it is a partial function and \<open>None\<close> is the
  run that does not return.
\<close>

partial_function (option) depth_loop :: "graph \<Rightarrow> (ident \<times> int) list \<Rightarrow> int \<Rightarrow> int option" where
  "depth_loop down stack best =
     (case stack of
        [] \<Rightarrow> Some best
      | (node, d) # rest \<Rightarrow>
          depth_loop down (fold (\<lambda>ch st. (ch, d + 1) # st) (succs down node) rest) (max best d))"

definition max_depth_from :: "ontology \<Rightarrow> ident \<Rightarrow> int option" where
  "max_depth_from S root =
     (let down = down_index (rels S R_is_a) in
      if root \<notin> set (classes S) then Some 0
      else depth_loop down [(root, 1)] 0)"

text \<open>The \<open>for c in leaves\<close> loop of \<open>validate\<close>.\<close>

fun check_leaves :: "ontology \<Rightarrow> ident list \<Rightarrow> error + bool" where
  "check_leaves S [] = Inr True"
| "check_leaves S (c # cs) =
     (if length (instances_of S c) < 2
      then Inl (AssertionError (Leaf_instances c (length (instances_of S c))))
      else check_leaves S cs)"

text \<open>
  \<open>validate\<close>: two \<open>assert\<close> statements and the loop over the leaves. \<open>None\<close> is a
  call that does not return because \<open>max_depth_from\<close> does not.
\<close>

definition validate :: "ontology \<Rightarrow> (error + bool) option" where
  "validate S =
     (if \<not> 20 \<le> length (classes S)
      then Some (Inl (AssertionError (Need_classes (length (classes S)))))
      else (case max_depth_from S ''Computer Science'' of
              None \<Rightarrow> None
            | Some depth \<Rightarrow>
                if \<not> 4 \<le> depth then Some (Inl (AssertionError Need_depth))
                else Some (check_leaves S (filter (is_leaf_class S) (classes S)))))"

section \<open>The module-level engine: \<open>src/ontology.py\<close>\<close>

text \<open>
  A Python \<open>str\<close> is modelled by its UTF-8 encoding, so a name outside ASCII is the list
  of its bytes; equality and dictionary lookup of names are those of the encodings. The
  module's tables are global constants; the functions below take them as a record, and
  \<open>module_tables\<close> is the record of the literals in the source.
\<close>

record tables =
  CLASSES :: "ident list"
  IS_A :: "(ident \<times> ident) list"
  PART_OF :: "(ident \<times> ident) list"
  HAS_PROPERTY :: "(ident \<times> ident) list"
  INSTANCE_OF :: "(ident \<times> ident) list"
  ALIASES :: "(ident \<times> ident) list"

text \<open>
  \<open>str.strip()\<close> removes, from both ends, the characters for which \<open>str.isspace()\<close>
  holds; \<open>whitespace\<close> lists their encodings.
\<close>

definition whitespace :: "string list" where
  "whitespace =
    [[CHR 0x09], [CHR 0x0A], [CHR 0x0B], [CHR 0x0C], [CHR 0x0D],
     [CHR 0x1C], [CHR 0x1D], [CHR 0x1E], [CHR 0x1F], [CHR 0x20],
     [CHR 0xC2, CHR 0x85], [CHR 0xC2, CHR 0xA0], [CHR 0xE1, CHR 0x9A, CHR 0x80],
     [CHR 0xE2, CHR 0x80, CHR 0x80], [CHR 0xE2, CHR 0x80, CHR 0x81],
     [CHR 0xE2, CHR 0x80, CHR 0x82], [CHR 0xE2, CHR 0x80, CHR 0x83],
     [CHR 0xE2, CHR 0x80, CHR 0x84], [CHR 0xE2, CHR 0x80, CHR 0x85],
     [CHR 0xE2, CHR 0x80, CHR 0x86], [CHR 0xE2, CHR 0x80, CHR 0x87],
     [CHR 0xE2, CHR 0x80, CHR 0x88], [CHR 0xE2, CHR 0x80, CHR 0x89],
     [CHR 0xE2, CHR 0x80, CHR 0x8A], [CHR 0xE2, CHR 0x80, CHR 0xA8],
     [CHR 0xE2, CHR 0x80, CHR 0xA9], [CHR 0xE2, CHR 0x80, CHR 0xAF],
     [CHR 0xE2, CHR 0x81, CHR 0x9F], [CHR 0xE3, CHR 0x80, CHR 0x80]]"

definition starts_with :: "string \<Rightarrow> string \<Rightarrow> bool" where
  "starts_with s w = (w \<noteq> [] \<and> take (length w) s = w)"

function strip_front :: "string list \<Rightarrow> string \<Rightarrow> string" where
  "strip_front ws s =
     (case find (starts_with s) ws of
        None \<Rightarrow> s
      | Some w \<Rightarrow> strip_front ws (drop (length w) s))"
  by pat_completeness auto

termination strip_front
proof (relation "measure (\<lambda>(ws, s). length s)", goal_cases)
  case 1
  show ?case by simp
next
  case (2 ws s w)
  then have "starts_with s w" by (auto simp: find_Some_iff)
  then have w: "w \<noteq> []" "take (length w) s = w"
    by (auto simp: starts_with_def)
  then have "length (take (length w) s) = length w" by simp
  then have "length w \<le> length s" by simp
  with w show ?case by (cases w) auto
qed

definition strip :: "string \<Rightarrow> string" where
  "strip s = rev (strip_front (map rev whitespace) (rev (strip_front whitespace s)))"

definition resolve :: "tables \<Rightarrow> string \<Rightarrow> error + ident" where
  "resolve T name =
     (let key = strip name in
      case map_of (ALIASES T) key of
        Some c \<Rightarrow> Inr c
      | None \<Rightarrow>
          if key \<in> set (CLASSES T) then Inr key
          else if key \<in> set (map fst (INSTANCE_OF T)) \<union> set (map snd (INSTANCE_OF T))
          then Inr key
          else Inl (KeyError (''Unknown term: '' @ name)))"

definition build_index :: "(ident \<times> ident) list \<Rightarrow> graph" where
  "build_index es = fold (\<lambda>(a, b) index. graph_add a b index) es []"

definition IS_A_INDEX :: "tables \<Rightarrow> graph" where
  "IS_A_INDEX T = build_index (IS_A T)"

definition PART_OF_INDEX :: "tables \<Rightarrow> graph" where
  "PART_OF_INDEX T = build_index (PART_OF T)"

definition HAS_PROPERTY_INDEX :: "tables \<Rightarrow> graph" where
  "HAS_PROPERTY_INDEX T = build_index (HAS_PROPERTY T)"

definition INSTANCE_OF_INDEX :: "tables \<Rightarrow> graph" where
  "INSTANCE_OF_INDEX T = build_index (INSTANCE_OF T)"

subsection \<open>\<open>is_a_transitive\<close>\<close>

text \<open>
  The \<open>for parent in ...\<close> loop inside the search: it returns at the first parent equal
  to the ancestor and otherwise appends the parent to the queue.
\<close>

fun scan_parents :: "ident \<Rightarrow> ident list \<Rightarrow> ident list \<Rightarrow> bool \<times> ident list" where
  "scan_parents ancestor queue [] = (False, queue)"
| "scan_parents ancestor queue (parent # ps) =
     (if parent = ancestor then (True, queue)
      else scan_parents ancestor (queue @ [parent]) ps)"

lemma scan_parents_queue:
  "set (snd (scan_parents ancestor queue ps)) \<subseteq> set queue \<union> set ps"
proof (induction ps arbitrary: queue)
  case Nil
  show ?case by simp
next
  case (Cons p ps)
  from Cons[of "queue @ [p]"] show ?case by auto
qed

function is_a_loop :: "graph \<Rightarrow> ident \<Rightarrow> ident set \<Rightarrow> ident list \<Rightarrow> bool" where
  "is_a_loop index ancestor visited [] = False"
| "is_a_loop index ancestor visited (node # queue) =
     (if node \<in> visited then is_a_loop index ancestor visited queue
      else (case scan_parents ancestor queue (succs index node) of
              (True, _) \<Rightarrow> True
            | (False, queue') \<Rightarrow> is_a_loop index ancestor (insert node visited) queue'))"
  by pat_completeness auto

lemma card_frontier_le:
  "finite U \<Longrightarrow> set q' \<subseteq> set q \<union> U \<Longrightarrow>
   card ((set q' \<union> U) - V) \<le> card ((set q \<union> U) - V)"
  by (rule card_mono) auto

lemma card_frontier_less:
  "finite U \<Longrightarrow> set q' \<subseteq> set q \<union> U \<Longrightarrow> x \<notin> V \<Longrightarrow>
   card ((set q' \<union> U) - insert x V) < card ((set (x # q) \<union> U) - V)"
  by (rule psubset_card_mono) auto

termination is_a_loop
proof (relation "measures [\<lambda>(g, t, visited, queue). card ((set queue \<union> targets g) - visited),
                            \<lambda>(g, t, visited, queue). length queue]", goal_cases)
  case 1
  show ?case by simp
next
  case (2 index ancestor visited node queue)
  have "card ((set queue \<union> targets index) - visited)
      \<le> card ((set (node # queue) \<union> targets index) - visited)"
    by (rule card_frontier_le[OF finite_targets]) auto
  then show ?case by auto
next
  case (3 index ancestor visited node queue x y)
  then have "y = snd (scan_parents ancestor queue (succs index node))"
    by (metis snd_conv)
  then have "set y \<subseteq> set queue \<union> targets index"
    using scan_parents_queue[of ancestor queue "succs index node"] succs_targets[of index node]
    by auto
  from card_frontier_less[OF finite_targets this, of node visited] 3 show ?case by simp
qed

definition is_a_transitive :: "tables \<Rightarrow> string \<Rightarrow> string \<Rightarrow> error + bool" where
  "is_a_transitive T child ancestor =
     (case resolve T child of Inl e \<Rightarrow> Inl e | Inr child' \<Rightarrow>
      case resolve T ancestor of Inl e \<Rightarrow> Inl e | Inr ancestor' \<Rightarrow>
      if child' = ancestor' then Inr True
      else Inr (is_a_loop (IS_A_INDEX T) ancestor' {} [child']))"

definition has_part :: "tables \<Rightarrow> string \<Rightarrow> string \<Rightarrow> error + bool" where
  "has_part T whole part =
     (case resolve T whole of Inl e \<Rightarrow> Inl e | Inr whole' \<Rightarrow>
      case resolve T part of Inl e \<Rightarrow> Inl e | Inr part' \<Rightarrow>
      Inr ((part', whole') \<in> set (PART_OF T)))"

subsection \<open>\<open>has_part_transitive\<close>\<close>

text \<open>
  \<open>for p in direct_parts: if is_a_transitive(part, p): return True\<close>; an error of
  \<open>is_a_transitive\<close> leaves the loop.
\<close>

fun any_is_a :: "tables \<Rightarrow> ident \<Rightarrow> ident list \<Rightarrow> error + bool" where
  "any_is_a T part [] = Inr False"
| "any_is_a T part (p # ps) =
     (case is_a_transitive T part p of
        Inl e \<Rightarrow> Inl e
      | Inr True \<Rightarrow> Inr True
      | Inr False \<Rightarrow> any_is_a T part ps)"

text \<open>
  The queue is a \<open>collections.deque\<close>. A deque has \<open>append\<close> and \<open>extend\<close> but no
  method \<open>update\<close>: evaluating \<open>queue.update(...)\<close> raises \<open>AttributeError\<close> whatever
  the argument is.
\<close>

definition deque_update :: "ident list \<Rightarrow> ident list \<Rightarrow> error + ident list" where
  "deque_update queue xs =
     Inl (AttributeError ''collections.deque object has no attribute update'')"

definition child_wholes :: "tables \<Rightarrow> ident \<Rightarrow> ident list" where
  "child_wholes T p = remdups (map snd (filter (\<lambda>(pp, w). pp = p) (PART_OF T)))"

text \<open>\<open>for p in direct_parts: child_wholes = {...}; queue.update(child_wholes)\<close>.\<close>

fun nested_parts :: "tables \<Rightarrow> ident list \<Rightarrow> ident list \<Rightarrow> error + ident list" where
  "nested_parts T queue [] = Inr queue"
| "nested_parts T queue (p # ps) =
     (case deque_update queue (child_wholes T p) of
        Inl e \<Rightarrow> Inl e
      | Inr queue' \<Rightarrow> nested_parts T queue' ps)"

definition direct_parts :: "tables \<Rightarrow> ident \<Rightarrow> ident list" where
  "direct_parts T node = remdups (map fst (filter (\<lambda>(p, w). w = node) (PART_OF T)))"

definition subclasses_of :: "tables \<Rightarrow> ident \<Rightarrow> ident list" where
  "subclasses_of T node = remdups (map fst (filter (\<lambda>(c, parent). parent = node) (IS_A T)))"

lemma nested_parts_queue: "nested_parts T queue ps = Inr queue' \<Longrightarrow> queue' = queue"
  by (cases ps) (auto simp: deque_update_def)

lemma subclasses_of_sources: "set (subclasses_of T node) \<subseteq> fst ` set (IS_A T)"
  by (auto simp: subclasses_of_def)

function has_part_loop :: "tables \<Rightarrow> ident \<Rightarrow> ident set \<Rightarrow> ident list \<Rightarrow> error + bool" where
  "has_part_loop T part visited [] = Inr False"
| "has_part_loop T part visited (node # queue) =
     (if node \<in> visited then has_part_loop T part visited queue
      else if part \<in> set (direct_parts T node) then Inr True
      else (case any_is_a T part (direct_parts T node) of
              Inl e \<Rightarrow> Inl e
            | Inr True \<Rightarrow> Inr True
            | Inr False \<Rightarrow>
                (case nested_parts T (queue @ subclasses_of T node) (direct_parts T node) of
                   Inl e \<Rightarrow> Inl e
                 | Inr queue' \<Rightarrow> has_part_loop T part (insert node visited) queue')))"
  by pat_completeness auto

termination has_part_loop
proof (relation "measures [\<lambda>(T, p, visited, queue). card ((set queue \<union> fst ` set (IS_A T)) - visited),
                            \<lambda>(T, p, visited, queue). length queue]", goal_cases)
  case 1
  show ?case by simp
next
  case (2 T part visited node queue)
  have "card ((set queue \<union> fst ` set (IS_A T)) - visited)
      \<le> card ((set (node # queue) \<union> fst ` set (IS_A T)) - visited)"
    by (rule card_frontier_le) auto
  then show ?case by auto
next
  case (3 T part visited node queue r queue')
  then have "queue' = queue @ subclasses_of T node"
    using nested_parts_queue by blast
  then have "set queue' \<subseteq> set queue \<union> fst ` set (IS_A T)"
    using subclasses_of_sources[of T node] by auto
  from card_frontier_less[OF _ this, of node visited] 3 show ?case by simp
qed

definition has_part_transitive :: "tables \<Rightarrow> string \<Rightarrow> string \<Rightarrow> error + bool" where
  "has_part_transitive T whole part =
     (case resolve T whole of Inl e \<Rightarrow> Inl e | Inr whole' \<Rightarrow>
      case resolve T part of Inl e \<Rightarrow> Inl e | Inr part' \<Rightarrow>
      has_part_loop T part' {} [whole'])"

subsection \<open>\<open>neighbors\<close> and \<open>connected\<close>\<close>

text \<open>
  What the generator \<open>neighbors\<close> yields after its \<open>resolve\<close>, in order: the forward
  edges through the four indexes, then the reverse edges, then both ends of every
  instance pair that has the term at either end.
\<close>

definition yielded :: "tables \<Rightarrow> ident \<Rightarrow> ident list" where
  "yielded T t =
     succs (IS_A_INDEX T) t @ succs (PART_OF_INDEX T) t
     @ succs (HAS_PROPERTY_INDEX T) t @ succs (INSTANCE_OF_INDEX T) t
     @ map fst (filter (\<lambda>(child, parent). parent = t) (IS_A T))
     @ map fst (filter (\<lambda>(part, whole). whole = t) (PART_OF T))
     @ map fst (filter (\<lambda>(subj, prop). prop = t) (HAS_PROPERTY T))
     @ concat (map (\<lambda>(inst, cls). [inst, cls])
         (filter (\<lambda>(inst, cls). cls = t \<or> inst = t) (INSTANCE_OF T)))"

definition neighbors :: "tables \<Rightarrow> string \<Rightarrow> error + ident list" where
  "neighbors T term = (case resolve T term of Inl e \<Rightarrow> Inl e | Inr t \<Rightarrow> Inr (yielded T t))"

text \<open>
  \<open>for nxt in neighbors(node): if nxt == b: return True; if nxt not in visited:
  queue.append(nxt)\<close>.
\<close>

fun scan_neighbors :: "ident \<Rightarrow> ident set \<Rightarrow> ident list \<Rightarrow> ident list \<Rightarrow> bool \<times> ident list" where
  "scan_neighbors b visited queue [] = (False, queue)"
| "scan_neighbors b visited queue (nxt # ns) =
     (if nxt = b then (True, queue)
      else scan_neighbors b visited (if nxt \<notin> visited then queue @ [nxt] else queue) ns)"

lemma scan_neighbors_queue:
  "set (snd (scan_neighbors b visited queue ns)) \<subseteq> set queue \<union> set ns"
proof (induction ns arbitrary: queue)
  case Nil
  show ?case by simp
next
  case (Cons n ns)
  from Cons[of "queue @ [n]"] Cons[of queue] show ?case by auto
qed

definition table_terms :: "tables \<Rightarrow> ident set" where
  "table_terms T =
     fst ` set (IS_A T) \<union> snd ` set (IS_A T) \<union> fst ` set (PART_OF T) \<union> snd ` set (PART_OF T)
     \<union> fst ` set (HAS_PROPERTY T) \<union> snd ` set (HAS_PROPERTY T)
     \<union> fst ` set (INSTANCE_OF T) \<union> snd ` set (INSTANCE_OF T)"

lemma succs_update:
  "succs (AList.update a v g) x = (if x = a then v else succs g x)"
  unfolding succs_def AList.update_conv' by simp

lemma graph_add_succs:
  "set (succs (graph_add a b g) x) = (if x = a then insert b (set (succs g a)) else set (succs g x))"
  unfolding graph_add_def succs_update by (simp add: set_set_add)

lemma fold_graph_add_succs:
  "set (succs (fold (\<lambda>(a, b) index. graph_add a b index) es g) x)
     = set (succs g x) \<union> {y. (x, y) \<in> set es}"
proof (induction es arbitrary: g)
  case Nil
  show ?case by simp
next
  case (Cons e es)
  obtain a b where e: "e = (a, b)" by (cases e)
  show ?case unfolding e by (simp add: Cons graph_add_succs) blast
qed

lemma build_index_succs: "set (succs (build_index es) x) = {y. (x, y) \<in> set es}"
  unfolding build_index_def fold_graph_add_succs by (simp add: succs_def)

lemma in_reverse_edges:
  "x \<in> set (map fst (filter (\<lambda>(x, y). y = t) es)) \<longleftrightarrow> (x, t) \<in> set es"
  by (induction es) auto

lemma in_instance_ends:
  "y \<in> set (concat (map (\<lambda>(inst, cls). [inst, cls])
     (filter (\<lambda>(inst, cls). cls = t \<or> inst = t) es)))
   \<longleftrightarrow> (\<exists>inst cls. (inst, cls) \<in> set es \<and> (cls = t \<or> inst = t) \<and> (y = inst \<or> y = cls))"
proof (induction es)
  case Nil
  show ?case by simp
next
  case (Cons e es)
  obtain i c where e: "e = (i, c)" by (cases e)
  show ?case unfolding e using Cons by simp blast
qed

definition table_edges :: "tables \<Rightarrow> (ident \<times> ident) set" where
  "table_edges T = set (IS_A T) \<union> set (PART_OF T) \<union> set (HAS_PROPERTY T) \<union> set (INSTANCE_OF T)"


lemma in_yielded:
  "y \<in> set (yielded T t) \<longleftrightarrow>
     (t, y) \<in> table_edges T \<or> (y, t) \<in> table_edges T
     \<or> (y = t \<and> (\<exists>z. (t, z) \<in> set (INSTANCE_OF T) \<or> (z, t) \<in> set (INSTANCE_OF T)))"
proof -
  have fwd: "\<And>es. y \<in> set (succs (build_index es) t) \<longleftrightarrow> (t, y) \<in> set es"
    by (simp add: build_index_succs)
  have "y \<in> set (yielded T t) \<longleftrightarrow>
      (t, y) \<in> set (IS_A T) \<or> (t, y) \<in> set (PART_OF T) \<or> (t, y) \<in> set (HAS_PROPERTY T)
      \<or> (t, y) \<in> set (INSTANCE_OF T)
      \<or> (y, t) \<in> set (IS_A T) \<or> (y, t) \<in> set (PART_OF T) \<or> (y, t) \<in> set (HAS_PROPERTY T)
      \<or> (\<exists>inst cls. (inst, cls) \<in> set (INSTANCE_OF T) \<and> (cls = t \<or> inst = t)
            \<and> (y = inst \<or> y = cls))"
    unfolding yielded_def IS_A_INDEX_def PART_OF_INDEX_def HAS_PROPERTY_INDEX_def
      INSTANCE_OF_INDEX_def set_append Un_iff fwd in_reverse_edges in_instance_ends
    by (simp only: disj_assoc)
  also have "\<dots> \<longleftrightarrow> (t, y) \<in> table_edges T \<or> (y, t) \<in> table_edges T
     \<or> (y = t \<and> (\<exists>z. (t, z) \<in> set (INSTANCE_OF T) \<or> (z, t) \<in> set (INSTANCE_OF T)))"
    unfolding table_edges_def Un_iff by blast
  finally show ?thesis .
qed

lemma table_edges_terms:
  assumes "(x, y) \<in> table_edges T"
  shows "x \<in> table_terms T" and "y \<in> table_terms T"
proof -
  have a: "\<And>es. (x, y) \<in> set es \<Longrightarrow> x \<in> fst ` set es \<and> y \<in> snd ` set es"
    by force
  from assms consider "(x, y) \<in> set (IS_A T)" | "(x, y) \<in> set (PART_OF T)"
    | "(x, y) \<in> set (HAS_PROPERTY T)" | "(x, y) \<in> set (INSTANCE_OF T)"
    unfolding table_edges_def by blast
  then have "x \<in> table_terms T \<and> y \<in> table_terms T"
  proof cases
    case 1 from a[OF 1] show ?thesis unfolding table_terms_def by simp
  next
    case 2 from a[OF 2] show ?thesis unfolding table_terms_def by simp
  next
    case 3 from a[OF 3] show ?thesis unfolding table_terms_def by simp
  next
    case 4 from a[OF 4] show ?thesis unfolding table_terms_def by simp
  qed
  then show "x \<in> table_terms T" and "y \<in> table_terms T" by simp_all
qed

lemma yielded_terms: "set (yielded T t) \<subseteq> table_terms T"
proof
  fix y assume "y \<in> set (yielded T t)"
  then consider "(t, y) \<in> table_edges T" | "(y, t) \<in> table_edges T"
    | z where "y = t" "(t, z) \<in> set (INSTANCE_OF T) \<or> (z, t) \<in> set (INSTANCE_OF T)"
    unfolding in_yielded by blast
  then show "y \<in> table_terms T"
  proof cases
    case 1
    then show ?thesis by (rule table_edges_terms)
  next
    case 2
    then show ?thesis by (rule table_edges_terms)
  next
    case 3
    then have "(t, z) \<in> table_edges T \<or> (z, t) \<in> table_edges T"
      unfolding table_edges_def by blast
    with 3 show ?thesis using table_edges_terms by blast
  qed
qed

function connected_loop :: "tables \<Rightarrow> ident \<Rightarrow> ident set \<Rightarrow> ident list \<Rightarrow> error + bool" where
  "connected_loop T b visited [] = Inr False"
| "connected_loop T b visited (node # queue) =
     (if node \<in> visited then connected_loop T b visited queue
      else (case neighbors T node of
              Inl e \<Rightarrow> Inl e
            | Inr ns \<Rightarrow>
                (case scan_neighbors b (insert node visited) queue ns of
                   (True, _) \<Rightarrow> Inr True
                 | (False, queue') \<Rightarrow> connected_loop T b (insert node visited) queue')))"
  by pat_completeness auto

lemma finite_table_terms: "finite (table_terms T)"
  by (simp add: table_terms_def)

termination connected_loop
proof (relation "measures [\<lambda>(T, b, visited, queue). card ((set queue \<union> table_terms T) - visited),
                            \<lambda>(T, b, visited, queue). length queue]", goal_cases)
  case 1
  show ?case by simp
next
  case (2 T b visited node queue)
  have "card ((set queue \<union> table_terms T) - visited)
      \<le> card ((set (node # queue) \<union> table_terms T) - visited)"
    by (rule card_frontier_le[OF finite_table_terms]) auto
  then show ?case by auto
next
  case (3 T b visited node queue ns x y)
  from \<open>neighbors T node = Inr ns\<close> obtain t where "ns = yielded T t"
    unfolding neighbors_def by (cases "resolve T node") auto
  then have ns: "set ns \<subseteq> table_terms T"
    using yielded_terms by simp
  from \<open>(x, y) = scan_neighbors b (insert node visited) queue ns\<close>
  have "scan_neighbors b (insert node visited) queue ns = (x, y)" by (rule sym)
  then have "y = snd (scan_neighbors b (insert node visited) queue ns)"
    by simp
  then have "set y \<subseteq> set queue \<union> set ns"
    using scan_neighbors_queue[of b "insert node visited" queue ns] by simp
  with ns have sub: "set y \<subseteq> set queue \<union> table_terms T" by blast
  have "card ((set y \<union> table_terms T) - insert node visited)
      < card ((set (node # queue) \<union> table_terms T) - visited)"
    using finite_table_terms sub \<open>node \<notin> visited\<close> by (rule card_frontier_less)
  then show ?case by simp
qed

definition connected :: "tables \<Rightarrow> string \<Rightarrow> string \<Rightarrow> error + bool" where
  "connected T a b =
     (case resolve T a of Inl e \<Rightarrow> Inl e | Inr a' \<Rightarrow>
      case resolve T b of Inl e \<Rightarrow> Inl e | Inr b' \<Rightarrow>
      if a' = b' then Inr True
      else connected_loop T b' {} [a'])"

subsection \<open>The tables of the source\<close>

definition CLASSES_data :: "ident list" where
  "CLASSES_data =
    [
     ''entity'', ''physical_object'', ''organism'', ''animal'', ''plant'',
     ''vertebrate'', ''invertebrate'', ''mammal'', ''bird'', ''fish'',
     ''reptile'', ''amphibian'', ''arthropod'', ''canine'', ''feline'',
     ''dog'', ''wolf'', ''fox'', ''cat'', ''lion'',
     ''sparrow'', ''eagle'', ''salmon'', ''tuna'', ''snake'',
     ''lizard'', ''spider'', ''beetle'', ''oak'', ''rose'',
     ''body_part'', ''appendage'', ''tail'', ''leg'', ''wing'',
     ''head'', ''eye'', ''fur'', ''feather'', ''fin'',
     ''scale'', ''skin'']"

definition IS_A_data :: "(ident \<times> ident) list" where
  "IS_A_data =
    [
     (''physical_object'', ''entity''), (''organism'', ''physical_object''), (''animal'', ''organism''),
     (''plant'', ''organism''), (''vertebrate'', ''animal''), (''invertebrate'', ''animal''),
     (''mammal'', ''vertebrate''), (''bird'', ''vertebrate''), (''fish'', ''vertebrate''),
     (''reptile'', ''vertebrate''), (''amphibian'', ''vertebrate''), (''arthropod'', ''invertebrate''),
     (''canine'', ''mammal''), (''feline'', ''mammal''), (''dog'', ''canine''),
     (''wolf'', ''canine''), (''fox'', ''canine''), (''cat'', ''feline''),
     (''lion'', ''feline''), (''sparrow'', ''bird''), (''eagle'', ''bird''),
     (''salmon'', ''fish''), (''tuna'', ''fish''), (''snake'', ''reptile''),
     (''lizard'', ''reptile''), (''spider'', ''arthropod''), (''beetle'', ''arthropod''),
     (''oak'', ''plant''), (''rose'', ''plant''), (''body_part'', ''physical_object''),
     (''appendage'', ''body_part''), (''tail'', ''appendage''), (''leg'', ''appendage''),
     (''wing'', ''appendage''), (''head'', ''body_part''), (''eye'', ''body_part''),
     (''fur'', ''body_part''), (''feather'', ''body_part''), (''fin'', ''appendage''),
     (''scale'', ''body_part''), (''skin'', ''body_part'')]"

definition PART_OF_data :: "(ident \<times> ident) list" where
  "PART_OF_data =
    [
     (''head'', ''vertebrate''), (''eye'', ''head''), (''leg'', ''vertebrate''),
     (''skin'', ''vertebrate''), (''tail'', ''mammal''), (''tail'', ''reptile''),
     (''wing'', ''bird''), (''fin'', ''fish''), (''feather'', ''bird''),
     (''fur'', ''mammal''), (''scale'', ''reptile'')]"

definition HAS_PROPERTY_data :: "(ident \<times> ident) list" where
  "HAS_PROPERTY_data =
    [
     (''tail'', ''fur''), (''wing'', ''feather''), (''snake'', ''scale''),
     (''fish'', ''fin'')]"

definition INSTANCE_OF_data :: "(ident \<times> ident) list" where
  "INSTANCE_OF_data =
    [
     (''rex'', ''dog''), (''bim'', ''dog''), (''murka'', ''cat''),
     (''simba'', ''cat''), (''akela'', ''wolf''), (''ghost'', ''wolf''),
     (''alisa'', ''fox''), (''todd'', ''fox''), (''mufasa'', ''lion''),
     (''nala'', ''lion''), (''chirpy'', ''sparrow''), (''jack'', ''sparrow''),
     (''freedom'', ''eagle''), (''storm'', ''eagle''), (''silver'', ''salmon''),
     (''red'', ''salmon''), (''bluefin'', ''tuna''), (''yellowfin'', ''tuna''),
     (''kaa'', ''snake''), (''viper'', ''snake''), (''gecko'', ''lizard''),
     (''iguana'', ''lizard''), (''charlotte'', ''spider''), (''aragog'', ''spider''),
     (''scarab'', ''beetle''), (''ladybug'', ''beetle''), (''oak1'', ''oak''),
     (''oak2'', ''oak''), (''rose1'', ''rose''), (''rose2'', ''rose'')]"

definition ALIASES_data :: "(ident \<times> ident) list" where
  "ALIASES_data =
    [([CHR 0xD1, CHR 0x81, CHR 0xD0, CHR 0xBE, CHR 0xD0, CHR 0xB1, CHR 0xD0, CHR 0xB0, CHR 0xD0, CHR 0xBA, CHR 0xD0, CHR 0xB0], ''dog''),
     ([CHR 0xD0, CHR 0xBF, CHR 0xD0, CHR 0xB5, CHR 0xD1, CHR 0x81], ''dog''),
     (''dog'', ''dog''),
     ([CHR 0xD0, CHR 0xBA, CHR 0xD1, CHR 0x96, CHR 0xD1, CHR 0x82], ''cat''),
     ([CHR 0xD0, CHR 0xBA, CHR 0xD1, CHR 0x96, CHR 0xD1, CHR 0x88, CHR 0xD0, CHR 0xBA, CHR 0xD0, CHR 0xB0], ''cat''),
     (''cat'', ''cat''),
     ([CHR 0xD0, CHR 0xB2, CHR 0xD0, CHR 0xBE, CHR 0xD0, CHR 0xB2, CHR 0xD0, CHR 0xBA], ''wolf''),
     (''wolf'', ''wolf''),
     ([CHR 0xD0, CHR 0xBB, CHR 0xD0, CHR 0xB8, CHR 0xD1, CHR 0x81, CHR 0xD0, CHR 0xB8, CHR 0xD1, CHR 0x86, CHR 0xD1, CHR 0x8F], ''fox''),
     (''fox'', ''fox''),
     ([CHR 0xD0, CHR 0xBB, CHR 0xD0, CHR 0xB5, CHR 0xD0, CHR 0xB2], ''lion''),
     (''lion'', ''lion''),
     ([CHR 0xD0, CHR 0xBF, CHR 0xD1, CHR 0x82, CHR 0xD0, CHR 0xB0, CHR 0xD1, CHR 0x85], ''bird''),
     (''bird'', ''bird''),
     ([CHR 0xD1, CHR 0x80, CHR 0xD0, CHR 0xB8, CHR 0xD0, CHR 0xB1, CHR 0xD0, CHR 0xB0], ''fish''),
     (''fish'', ''fish''),
     ([CHR 0xD1, CHR 0x81, CHR 0xD1, CHR 0x81, CHR 0xD0, CHR 0xB0, CHR 0xD0, CHR 0xB2, CHR 0xD0, CHR 0xB5, CHR 0xD1, CHR 0x86, CHR 0xD1, CHR 0x8C], ''mammal''),
     (''mammal'', ''mammal''),
     ([CHR 0xD1, CHR 0x85, CHR 0xD1, CHR 0x80, CHR 0xD0, CHR 0xB5, CHR 0xD0, CHR 0xB1, CHR 0xD0, CHR 0xB5, CHR 0xD1, CHR 0x82, CHR 0xD0, CHR 0xBD, CHR 0xD0, CHR 0xB8, CHR 0xD0, CHR 0xB9], ''vertebrate''),
     (''vertebrate'', ''vertebrate''),
     ([CHR 0xD0, CHR 0xB1, CHR 0xD0, CHR 0xB5, CHR 0xD0, CHR 0xB7, CHR 0xD1, CHR 0x85, CHR 0xD1, CHR 0x80, CHR 0xD0, CHR 0xB5, CHR 0xD0, CHR 0xB1, CHR 0xD0, CHR 0xB5, CHR 0xD1, CHR 0x82, CHR 0xD0, CHR 0xBD, CHR 0xD0, CHR 0xB8, CHR 0xD0, CHR 0xB9], ''invertebrate''),
     (''invertebrate'', ''invertebrate''),
     ([CHR 0xD0, CHR 0xBF, CHR 0xD0, CHR 0xBB, CHR 0xD0, CHR 0xB0, CHR 0xD0, CHR 0xB7, CHR 0xD1, CHR 0x83, CHR 0xD0, CHR 0xBD], ''reptile''),
     (''reptile'', ''reptile''),
     ([CHR 0xD0, CHR 0xB7, CHR 0xD0, CHR 0xB5, CHR 0xD0, CHR 0xBC, CHR 0xD0, CHR 0xBD, CHR 0xD0, CHR 0xBE, CHR 0xD0, CHR 0xB2, CHR 0xD0, CHR 0xBE, CHR 0xD0, CHR 0xB4, CHR 0xD0, CHR 0xBD, CHR 0xD0, CHR 0xB5], ''amphibian''),
     (''amphibian'', ''amphibian''),
     ([CHR 0xD0, CHR 0xB3, CHR 0xD0, CHR 0xBE, CHR 0xD1, CHR 0x80, CHR 0xD0, CHR 0xBE, CHR 0xD0, CHR 0xB1, CHR 0xD0, CHR 0xB5, CHR 0xD1, CHR 0x86, CHR 0xD1, CHR 0x8C], ''sparrow''),
     (''sparrow'', ''sparrow''),
     ([CHR 0xD0, CHR 0xBE, CHR 0xD1, CHR 0x80, CHR 0xD0, CHR 0xB5, CHR 0xD0, CHR 0xBB], ''eagle''),
     (''eagle'', ''eagle''),
     ([CHR 0xD0, CHR 0xBB, CHR 0xD0, CHR 0xBE, CHR 0xD1, CHR 0x81, CHR 0xD0, CHR 0xBE, CHR 0xD1, CHR 0x81, CHR 0xD1, CHR 0x8C], ''salmon''),
     (''salmon'', ''salmon''),
     ([CHR 0xD1, CHR 0x82, CHR 0xD1, CHR 0x83, CHR 0xD0, CHR 0xBD, CHR 0xD0, CHR 0xB5, CHR 0xD1, CHR 0x86, CHR 0xD1, CHR 0x8C], ''tuna''),
     (''tuna'', ''tuna''),
     ([CHR 0xD0, CHR 0xB7, CHR 0xD0, CHR 0xBC, CHR 0xD1, CHR 0x96, CHR 0xD1, CHR 0x8F], ''snake''),
     (''snake'', ''snake''),
     ([CHR 0xD1, CHR 0x8F, CHR 0xD1, CHR 0x89, CHR 0xD1, CHR 0x96, CHR 0xD1, CHR 0x80, CHR 0xD0, CHR 0xBA, CHR 0xD0, CHR 0xB0], ''lizard''),
     (''lizard'', ''lizard''),
     ([CHR 0xD0, CHR 0xBF, CHR 0xD0, CHR 0xB0, CHR 0xD0, CHR 0xB2, CHR 0xD1, CHR 0x83, CHR 0xD0, CHR 0xBA], ''spider''),
     (''spider'', ''spider''),
     ([CHR 0xD0, CHR 0xB6, CHR 0xD1, CHR 0x83, CHR 0xD0, CHR 0xBA], ''beetle''),
     (''beetle'', ''beetle''),
     ([CHR 0xD0, CHR 0xB4, CHR 0xD1, CHR 0x83, CHR 0xD0, CHR 0xB1], ''oak''),
     (''oak'', ''oak''),
     ([CHR 0xD1, CHR 0x82, CHR 0xD1, CHR 0x80, CHR 0xD0, CHR 0xBE, CHR 0xD1, CHR 0x8F, CHR 0xD0, CHR 0xBD, CHR 0xD0, CHR 0xB4, CHR 0xD0, CHR 0xB0], ''rose''),
     (''rose'', ''rose''),
     ([CHR 0xD1, CHR 0x85, CHR 0xD0, CHR 0xB2, CHR 0xD1, CHR 0x96, CHR 0xD1, CHR 0x81, CHR 0xD1, CHR 0x82], ''tail''),
     (''tail'', ''tail''),
     ([CHR 0xD1, CHR 0x88, CHR 0xD0, CHR 0xB5, CHR 0xD1, CHR 0x80, CHR 0xD1, CHR 0x81, CHR 0xD1, CHR 0x82, CHR 0xD1, CHR 0x8C], ''fur''),
     (''fur'', ''fur''),
     ([CHR 0xD0, CHR 0xBF, CHR 0xD0, CHR 0xB5, CHR 0xD1, CHR 0x80, CHR 0xD0, CHR 0xBE], ''feather''),
     (''feather'', ''feather''),
     ([CHR 0xD0, CHR 0xBA, CHR 0xD1, CHR 0x80, CHR 0xD0, CHR 0xB8, CHR 0xD0, CHR 0xBB, CHR 0xD0, CHR 0xBE], ''wing''),
     (''wing'', ''wing''),
     ([CHR 0xD0, CHR 0xBE, CHR 0xD0, CHR 0xBA, CHR 0xD0, CHR 0xBE], ''eye''),
     (''eye'', ''eye''),
     ([CHR 0xD0, CHR 0xB3, CHR 0xD0, CHR 0xBE, CHR 0xD0, CHR 0xBB, CHR 0xD0, CHR 0xBE, CHR 0xD0, CHR 0xB2, CHR 0xD0, CHR 0xB0], ''head''),
     (''head'', ''head''),
     ([CHR 0xD0, CHR 0xBB, CHR 0xD1, CHR 0x83, CHR 0xD1, CHR 0x81, CHR 0xD0, CHR 0xBA, CHR 0xD0, CHR 0xB0], ''scale''),
     (''scale'', ''scale''),
     ([CHR 0xD1, CHR 0x88, CHR 0xD0, CHR 0xBA, CHR 0xD1, CHR 0x96, CHR 0xD1, CHR 0x80, CHR 0xD0, CHR 0xB0], ''skin''),
     (''skin'', ''skin'')]"

definition module_tables :: tables where
  "module_tables =
     \<lparr>CLASSES = CLASSES_data, IS_A = IS_A_data, PART_OF = PART_OF_data,
      HAS_PROPERTY = HAS_PROPERTY_data, INSTANCE_OF = INSTANCE_OF_data,
      ALIASES = ALIASES_data\<rparr>"

(*DEFS-END*)

section \<open>Helper lemmas\<close>

subsection \<open>The identifier sets after construction\<close>


lemma classes_add_class: "set (classes (add_class c S)) = insert c (set (classes S))"
  by (simp add: add_class_def set_set_add)

lemma instances_add_class: "instances (add_class c S) = instances S"
  by (simp add: add_class_def)

lemma classes_add_edge: "set (classes (add_edge r a b S)) = {a, b} \<union> set (classes S)"
  by (auto simp: add_edge_def Let_def classes_add_class)

lemma instances_add_edge: "instances (add_edge r a b S) = instances S"
  by (simp add: add_edge_def Let_def instances_add_class)

lemma classes_add_instance: "set (classes (add_instance i c S)) = insert c (set (classes S))"
  by (simp add: add_instance_def Let_def classes_add_class)

lemma instances_add_instance:
  "set (instances (add_instance i c S)) = insert i (set (instances S))"
  by (simp add: add_instance_def Let_def instances_add_class set_set_add)

lemma classes_construct: "set (classes (construct c S)) = class_args c \<union> set (classes S)"
  by (cases c) (auto simp: classes_add_class classes_add_edge classes_add_instance
      add_is_a_def add_part_of_def add_depends_on_def)

lemma instances_construct:
  "set (instances (construct c S)) = instance_args c \<union> set (instances S)"
  by (cases c) (auto simp: instances_add_class instances_add_edge instances_add_instance
      add_is_a_def add_part_of_def add_depends_on_def)

lemma classes_fold_construct:
  "set (classes (fold construct ops S)) = (\<Union>c\<in>set ops. class_args c) \<union> set (classes S)"
  by (induction ops arbitrary: S) (auto simp: classes_construct)

lemma instances_fold_construct:
  "set (instances (fold construct ops S)) =
     (\<Union>c\<in>set ops. instance_args c) \<union> set (instances S)"
  by (induction ops arbitrary: S) (auto simp: instances_construct)

subsection \<open>\<open>_reachable\<close> decides reachability over the stored edges\<close>


lemma reachable_loop_sound:
  "reachable_loop g t seen stack \<Longrightarrow> \<exists>x\<in>set stack. (x, t) \<in> (edges g)\<^sup>*"
proof (induction g t seen stack rule: reachable_loop.induct)
  case (1 g target seen)
  then show ?case by simp
next
  case (2 g target seen x stack)
  show ?case
  proof (cases "x = target")
    case True
    then show ?thesis by auto
  next
    case nt: False
    show ?thesis
    proof (cases "x \<in> seen")
      case True
      with nt 2 show ?thesis by auto
    next
      case False
      with nt 2 obtain y where y: "y \<in> set (rev (succs g x) @ stack)" "(y, target) \<in> (edges g)\<^sup>*"
        by (auto simp: fold_push)
      show ?thesis
      proof (cases "y \<in> set stack")
        case True
        with y show ?thesis by auto
      next
        case False
        with y have "(x, y) \<in> edges g" by (auto simp: edges_def)
        with y have "(x, target) \<in> (edges g)\<^sup>*" by (meson converse_rtrancl_into_rtrancl)
        then show ?thesis by auto
      qed
    qed
  qed
qed

lemma reachable_loop_closed:
  "\<not> reachable_loop g t seen stack \<Longrightarrow>
   (\<forall>u\<in>seen. \<forall>v. (u, v) \<in> edges g \<longrightarrow> v \<in> seen \<union> set stack) \<Longrightarrow> t \<notin> seen \<Longrightarrow>
   \<exists>C. seen \<union> set stack \<subseteq> C \<and> (\<forall>u\<in>C. \<forall>v. (u, v) \<in> edges g \<longrightarrow> v \<in> C) \<and> t \<notin> C"
proof (induction g t seen stack rule: reachable_loop.induct)
  case (1 g target seen)
  then show ?case by (intro exI[of _ seen]) auto
next
  case (2 g target seen x stack)
  from "2.prems"(1) have nt: "x \<noteq> target" by (auto split: if_splits)
  show ?case
  proof (cases "x \<in> seen")
    case True
    with nt "2.prems" have "\<not> reachable_loop g target seen stack" by simp
    moreover have "\<forall>u\<in>seen. \<forall>v. (u, v) \<in> edges g \<longrightarrow> v \<in> seen \<union> set stack"
      using "2.prems"(2) True by auto
    ultimately obtain C where "seen \<union> set stack \<subseteq> C"
        "\<forall>u\<in>C. \<forall>v. (u, v) \<in> edges g \<longrightarrow> v \<in> C" "target \<notin> C"
      using "2.IH"(1)[OF nt True] "2.prems"(3) by blast
    with True show ?thesis by (intro exI[of _ C]) auto
  next
    case False
    let ?st = "fold (\<lambda>y st. y # st) (succs g x) stack"
    from nt False "2.prems" have "\<not> reachable_loop g target (insert x seen) ?st" by simp
    moreover have "\<forall>u\<in>insert x seen. \<forall>v. (u, v) \<in> edges g \<longrightarrow> v \<in> insert x seen \<union> set ?st"
      using "2.prems"(2) by (auto simp: fold_push edges_def)
    moreover have "target \<notin> insert x seen" using nt "2.prems"(3) by simp
    ultimately obtain C where "insert x seen \<union> set ?st \<subseteq> C"
        "\<forall>u\<in>C. \<forall>v. (u, v) \<in> edges g \<longrightarrow> v \<in> C" "target \<notin> C"
      using "2.IH"(2)[OF nt False] by blast
    then show ?thesis by (intro exI[of _ C]) (auto simp: fold_push)
  qed
qed

lemma closed_rtrancl:
  "(a, b) \<in> E\<^sup>* \<Longrightarrow> a \<in> C \<Longrightarrow> (\<forall>u\<in>C. \<forall>v. (u, v) \<in> E \<longrightarrow> v \<in> C) \<Longrightarrow> b \<in> C"
  by (induction rule: rtrancl_induct) auto

lemma reachable_iff: "reachable S a b r \<longleftrightarrow> (a, b) \<in> (edges (rels S r))\<^sup>*"
proof
  assume "reachable S a b r"
  then show "(a, b) \<in> (edges (rels S r))\<^sup>*"
    using reachable_loop_sound[of "rels S r" b "{}" "[a]"] by (simp add: reachable_def)
next
  assume ab: "(a, b) \<in> (edges (rels S r))\<^sup>*"
  show "reachable S a b r"
  proof (rule ccontr)
    assume "\<not> reachable S a b r"
    then have "\<not> reachable_loop (rels S r) b {} [a]" by (simp add: reachable_def)
    from reachable_loop_closed[OF this] obtain C where
      "a \<in> C" "\<forall>u\<in>C. \<forall>v. (u, v) \<in> edges (rels S r) \<longrightarrow> v \<in> C" "b \<notin> C" by auto
    with closed_rtrancl[OF ab] show False by blast
  qed
qed

subsection \<open>The invariant of the store\<close>

lemma set_update_subset: "set (AList.update k v al) \<subseteq> insert (k, v) (set al)"
  by (induction al) auto

lemma store_inv_init: "store_inv Ontology_init"
  by (simp add: store_inv_def Ontology_init_def)

lemma relname_all: "r \<in> {R_is_a, R_part_of, R_depends_on}"
  by (cases r) auto

lemma store_inv_edges:
  assumes "store_inv S" "(x, y) \<in> edges (rels S r)"
  shows "x \<in> set (classes S)" and "y \<in> set (classes S)"
proof -
  from assms(2) have "y \<in> set (succs (rels S r) x)" by (simp add: edges_def)
  then obtain ys where ys: "map_of (rels S r) x = Some ys" "y \<in> set ys"
    by (cases "map_of (rels S r) x") (auto simp: succs_def)
  then have "(x, ys) \<in> set (rels S r)" by (simp add: map_of_SomeD)
  with assms(1) relname_all[of r] have "x \<in> set (classes S) \<and> set ys \<subseteq> set (classes S)"
    unfolding store_inv_def by blast
  with ys show "x \<in> set (classes S)" and "y \<in> set (classes S)" by auto
qed

lemma store_inv_add_class: "store_inv S \<Longrightarrow> store_inv (add_class c S)"
  unfolding store_inv_def add_class_def by (simp add: set_set_add) blast

lemma store_inv_add_edge:
  assumes "store_inv S"
  shows "store_inv (add_edge r a b S)"
proof -
  let ?S2 = "add_class b (add_class a S)"
  have inv2: "store_inv ?S2" using assms by (simp add: store_inv_add_class)
  have cl: "a \<in> set (classes ?S2)" "b \<in> set (classes ?S2)"
    by (simp_all add: classes_add_class)
  have g: "\<And>x ys. (x, ys) \<in> set (graph_add a b (rels ?S2 r)) \<Longrightarrow>
      x \<in> set (classes ?S2) \<and> set ys \<subseteq> set (classes ?S2)"
  proof -
    fix x ys assume "(x, ys) \<in> set (graph_add a b (rels ?S2 r))"
    then have "(x, ys) = (a, set_add b (succs (rels ?S2 r) a)) \<or> (x, ys) \<in> set (rels ?S2 r)"
      using set_update_subset[of a "set_add b (succs (rels ?S2 r) a)" "rels ?S2 r"]
      by (auto simp: graph_add_def)
    then show "x \<in> set (classes ?S2) \<and> set ys \<subseteq> set (classes ?S2)"
    proof
      assume "(x, ys) = (a, set_add b (succs (rels ?S2 r) a))"
      moreover have "set (succs (rels ?S2 r) a) \<subseteq> set (classes ?S2)"
        using store_inv_edges(2)[OF inv2, of a _ r] by (auto simp: edges_def)
      ultimately show ?thesis using cl by (auto simp: set_set_add)
    next
      assume "(x, ys) \<in> set (rels ?S2 r)"
      with inv2 relname_all[of r] show ?thesis unfolding store_inv_def by blast
    qed
  qed
  have eq: "add_edge r a b S = ?S2\<lparr>rels := (rels ?S2)(r := graph_add a b (rels ?S2 r))\<rparr>"
    by (simp add: add_edge_def Let_def)
  show ?thesis
    unfolding eq store_inv_def
  proof (intro conjI ballI, goal_cases)
    case (1 r' e)
    obtain x ys where e: "e = (x, ys)" by (cases e)
    show ?case
    proof (cases "r' = r")
      case True
      with 1 e g[of x ys] show ?thesis by simp
    next
      case False
      with 1 e inv2 relname_all[of r'] show ?thesis unfolding store_inv_def by auto
    qed
  next
    case (2 e)
    with inv2 show ?case unfolding store_inv_def by auto
  qed
qed

lemma store_inv_add_instance:
  assumes "store_inv S"
  shows "store_inv (add_instance i c S)"
proof -
  let ?S1 = "add_class c S"
  have inv1: "store_inv ?S1" using assms by (rule store_inv_add_class)
  have eq: "add_instance i c S = ?S1\<lparr>instances := set_add i (instances ?S1),
            instance_of := AList.update i c (instance_of ?S1)\<rparr>"
    by (simp add: add_instance_def Let_def)
  have c: "c \<in> set (classes ?S1)" by (simp add: classes_add_class)
  show ?thesis unfolding eq store_inv_def
  proof (intro conjI ballI, goal_cases)
    case (1 r e)
    with inv1 show ?case unfolding store_inv_def by auto
  next
    case (2 e)
    then have "e = (i, c) \<or> e \<in> set (instance_of ?S1)"
      using set_update_subset[of i c "instance_of ?S1"] by auto
    then show ?case
    proof
      assume "e = (i, c)" with c show ?thesis by (simp add: set_set_add)
    next
      assume "e \<in> set (instance_of ?S1)"
      with inv1 show ?thesis unfolding store_inv_def by (auto simp: set_set_add)
    qed
  qed
qed

lemma store_inv_construct: "store_inv S \<Longrightarrow> store_inv (construct c S)"
  by (cases c) (simp_all add: store_inv_add_class store_inv_add_edge store_inv_add_instance
      add_is_a_def add_part_of_def add_depends_on_def)

lemma store_inv_fold: "store_inv S \<Longrightarrow> store_inv (fold construct ops S)"
  by (induction ops arbitrary: S) (simp_all add: store_inv_construct)

lemma store_inv_build: "store_inv (build ops)"
  by (simp add: build_def store_inv_fold store_inv_init)

(*HELPERS-END*)

section \<open>The claims\<close>

subsection \<open>C2: assigning an instance to a second class\<close>



subsection \<open>C7: class identifiers and instance identifiers\<close>

text \<open>
  C7 (as stated, refuted): after every sequence of construction calls the class
  identifiers and the instance identifiers would be disjoint. After \<open>add_class("dog")\<close>
  and \<open>add_instance("dog", "animal")\<close> the identifier \<open>"dog"\<close> is in both sets.
\<close>

theorem disjoint_counterexample:
  "set (classes (build [Add_class ''dog'', Add_instance ''dog'' ''animal'']))
     \<inter> set (instances (build [Add_class ''dog'', Add_instance ''dog'' ''animal''])) \<noteq> {}"
  by (simp add: build_def add_instance_def add_class_def Ontology_init_def set_add_def Let_def)

text \<open>
  C7 (amended): after a sequence of construction calls the class identifiers are exactly
  the identifiers the calls passed in class position and the instance identifiers exactly
  those passed as the instance of \<open>add_instance\<close>; so the two sets are disjoint exactly
  when no identifier was passed in both positions, which the store itself never checks.
\<close>

theorem build_identifier_sets:
  "set (classes (build ops)) = (\<Union>c\<in>set ops. class_args c)
   \<and> set (instances (build ops)) = (\<Union>c\<in>set ops. instance_args c)"
  by (simp add: build_def classes_fold_construct instances_fold_construct Ontology_init_def)

end
